theory Spec2Isabelle
  imports Main "HOL-Library.Sublist"
begin

section \<open>Tile coordinates and the tile URL (main.cpp)\<close>

text \<open>
  Modelled from the spec: the type \<open>TileCoord\<close> (the header \<open>TileCoord.h\<close> that declares
  it is missing). A tile coordinate is a triple of integers; \<open>main.cpp\<close> builds it as
  \<open>{zoom, x, y}\<close> and reads its fields \<open>zoom\<close>, \<open>x\<close> and \<open>y\<close>. The fields \<open>x\<close> and \<open>y\<close> are
  called \<open>tile_x\<close> and \<open>tile_y\<close> here, so that \<open>x\<close> and \<open>y\<close> stay usable as variables. The
  fields range over all integers, which covers every machine integer type.
\<close>

record TileCoord =
  zoom :: int
  tile_x :: int
  tile_y :: int

text \<open>
  A \<open>QString\<close> is a sequence of code units, a \<open>string\<close> here. \<open>QString::number\<close> prints
  an integer in base 10, most significant digit first, with a leading minus sign for a
  negative number.
\<close>

definition digit_char :: "nat \<Rightarrow> char" where
  "digit_char d = ''0123456789'' ! (d mod 10)"

fun decimal :: "nat \<Rightarrow> string" where
  "decimal n = (if n < 10 then [digit_char n] else decimal (n div 10) @ [digit_char n])"

declare decimal.simps [simp del]

definition number :: "int \<Rightarrow> string" where
  "number i = (if i < 0 then CHR ''-'' # decimal (nat (- i)) else decimal (nat i))"

text \<open>The characters that the decimal representation of an integer is made of.\<close>

definition number_chars :: "char set" where
  "number_chars = set ''-0123456789''"

text \<open>
  \<open>QString::replace(before, after)\<close> scans the string from the left, replaces each
  occurrence of \<open>before\<close> it meets by \<open>after\<close> and goes on behind the occurrence: the
  inserted text is not scanned again. An empty \<open>before\<close> matches in front of every
  character and at the end. The two arguments are called \<open>bef\<close> and \<open>aft\<close> below.
\<close>

function replace :: "string \<Rightarrow> string \<Rightarrow> string \<Rightarrow> string" where
  "replace bef aft s =
     (if bef = [] then aft @ concat (map (\<lambda>c. c # aft) s)
      else if s = [] then []
      else if prefix bef s then aft @ replace bef aft (drop (length bef) s)
      else hd s # replace bef aft (tl s))"
  by pat_completeness auto
termination
  by (relation "measure (\<lambda>(bef, aft, s). length s)") auto

declare replace.simps [simp del]

text \<open>
  \<^verbatim>\<open>
  QString getPbfLink(const TileCoord &tileCoord, const QString &pbfLinkTemplate)
  {
      auto copy = pbfLinkTemplate;
      copy.replace("{z}", QString::number(tileCoord.zoom));
      copy.replace("{x}", QString::number(tileCoord.x));
      copy.replace("{y}", QString::number(tileCoord.y));
      return copy;
  }
  \<close>
\<close>

definition getPbfLink :: "TileCoord \<Rightarrow> string \<Rightarrow> string" where
  "getPbfLink tileCoord pbfLinkTemplate =
     (let copy = pbfLinkTemplate;
          copy = replace ''{z}'' (number (zoom tileCoord)) copy;
          copy = replace ''{x}'' (number (tile_x tileCoord)) copy;
          copy = replace ''{y}'' (number (tile_y tileCoord)) copy
      in copy)"

text \<open>
  The specification of the URL: one pass over the template in which every occurrence of
  a placeholder is exchanged for the text that stands for it, and every other character
  is copied.
\<close>

fun substitute_placeholders :: "string \<Rightarrow> string \<Rightarrow> string \<Rightarrow> string \<Rightarrow> string" where
  "substitute_placeholders zs xs ys [] = []"
| "substitute_placeholders zs xs ys (c # cs) =
     (if prefix ''{z}'' (c # cs) then zs @ substitute_placeholders zs xs ys (drop 2 cs)
      else if prefix ''{x}'' (c # cs) then xs @ substitute_placeholders zs xs ys (drop 2 cs)
      else if prefix ''{y}'' (c # cs) then ys @ substitute_placeholders zs xs ys (drop 2 cs)
      else c # substitute_placeholders zs xs ys cs)"

definition url_spec :: "TileCoord \<Rightarrow> string \<Rightarrow> string" where
  "url_spec tileCoord pbfLinkTemplate =
     substitute_placeholders (number (zoom tileCoord)) (number (tile_x tileCoord))
       (number (tile_y tileCoord)) pbfLinkTemplate"

text \<open>A string occurs in another one when it is a prefix of one of its suffixes.\<close>

fun occurs_in :: "string \<Rightarrow> string \<Rightarrow> bool" where
  "occurs_in p [] = (p = [])"
| "occurs_in p (c # cs) = (prefix p (c # cs) \<or> occurs_in p cs)"


section \<open>The tile loader's declarations (TileLoader header)\<close>

text \<open>The enumeration \<open>Bach::LoadedTileState\<close>, in the order of its enumerators.\<close>

datatype LoadedTileState = Ok | Pending | ParsingFailed | Cancelled | UnknownError

text \<open>
  \<open>TileLoader::StoredTile\<close> holds the state of a tile and a \<open>std::unique_ptr\<close> to the
  parsed tile; \<open>None\<close> is the null pointer. The type of parsed tiles is a parameter.
\<close>

record 'tile StoredTile =
  state :: LoadedTileState
  tile :: "'tile option"

text \<open>
  The default member initialisers: \<open>state = {}\<close> value-initialises the enumeration, which
  gives its first enumerator, and the pointer is null.
\<close>

definition default_StoredTile :: "'tile StoredTile" where
  "default_StoredTile = \<lparr>state = Ok, tile = None\<rparr>"

definition isReadyToRender :: "'tile StoredTile \<Rightarrow> bool" where
  "isReadyToRender t = (state t = Ok)"

definition newPending :: "'tile StoredTile" where
  "newPending = (let temp = default_StoredTile in temp\<lparr>state := Pending\<rparr>)"

text \<open>
  A listener (\<open>TileLoadedCallbackFn\<close>, a \<open>std::function<void(TileCoord)>\<close>) is identified
  by a number, which tells the callbacks of different callers apart; an optional listener
  is \<open>None\<close> for the null function, so \<open>static_cast<bool>(fn)\<close> is \<open>fn \<noteq> None\<close>.
\<close>

type_synonym Listener = nat

text \<open>
  The two inline overloads of \<open>requestTiles\<close> forward to the three-argument member, whose
  body is not in the header: it is the parameter \<open>requestTiles\<close> of the two definitions,
  with any result type, so that the result may include what the call does to the loader.
  The \<open>std::set\<close> of requested coordinates is given as the list of its elements.
  \<^verbatim>\<open>
  auto requestTiles(const std::set<TileCoord> &requestInput, bool loadMissingTiles)
  {
      return requestTiles(requestInput, nullptr, loadMissingTiles);
  }
  auto requestTiles(const std::set<TileCoord> &requestInput,
                    TileLoadedCallbackFn tileLoadedSignalFn = nullptr)
  {
      return requestTiles(requestInput, tileLoadedSignalFn,
                          static_cast<bool>(tileLoadedSignalFn));
  }
  \<close>
\<close>

definition requestTiles_loadMissing ::
  "(TileCoord list \<Rightarrow> Listener option \<Rightarrow> bool \<Rightarrow> 'r) \<Rightarrow> TileCoord list \<Rightarrow> bool \<Rightarrow> 'r" where
  "requestTiles_loadMissing requestTiles requestInput loadMissingTiles =
     requestTiles requestInput None loadMissingTiles"

definition requestTiles_signalFn ::
  "(TileCoord list \<Rightarrow> Listener option \<Rightarrow> bool \<Rightarrow> 'r) \<Rightarrow> TileCoord list \<Rightarrow> Listener option \<Rightarrow> 'r" where
  "requestTiles_signalFn requestTiles requestInput tileLoadedSignalFn =
     requestTiles requestInput tileLoadedSignalFn (tileLoadedSignalFn \<noteq> None)"

text \<open>The second overload with its default argument, a null listener.\<close>

definition requestTiles_default ::
  "(TileCoord list \<Rightarrow> Listener option \<Rightarrow> bool \<Rightarrow> 'r) \<Rightarrow> TileCoord list \<Rightarrow> 'r" where
  "requestTiles_default requestTiles requestInput =
     requestTiles_signalFn requestTiles requestInput None"

text \<open>
  The shorthand forms as the specification words them: the form without a listener passes
  no listener, and the form with a listener loads missing tiles exactly when a listener is
  there.
\<close>

definition shorthand_load_missing ::
  "(TileCoord list \<Rightarrow> Listener option \<Rightarrow> bool \<Rightarrow> 'r) \<Rightarrow> TileCoord list \<Rightarrow> bool \<Rightarrow> 'r" where
  "shorthand_load_missing request_full wanted load_missing = request_full wanted None load_missing"

definition shorthand_on_loaded ::
  "(TileCoord list \<Rightarrow> Listener option \<Rightarrow> bool \<Rightarrow> 'r) \<Rightarrow> TileCoord list \<Rightarrow> Listener option \<Rightarrow> 'r" where
  "shorthand_on_loaded request_full wanted on_loaded =
     (case on_loaded of None \<Rightarrow> request_full wanted None False
      | Some l \<Rightarrow> request_full wanted (Some l) True)"

section \<open>The tile registry and the request coordinator\<close>

text \<open>
  The bodies of \<open>TileLoader::requestTiles\<close>, \<open>queueTileLoadingJobs\<close>, \<open>loadFromDisk\<close>,
  \<open>loadFromWeb\<close>, \<open>networkReplyHandler\<close>, \<open>queueTileParsing\<close> and \<open>insertTile\<close> are declared
  in the header and defined in a source file that is missing. What they do follows the
  specification of the registry (its section 4.1), of the request coordinator (4.2) and
  of the load jobs (4.3 to 4.6), on the data that the header declares: the registry is the
  member \<open>tileMemory\<close>, a \<open>std::map\<close> from \<open>TileCoord\<close> to \<open>StoredTile\<close>, whose entries have a
  state and a tile and no list of listeners; the callback of a request is an argument of
  \<open>queueTileLoadingJobs\<close>, \<open>loadFromDisk\<close>, \<open>loadFromWeb\<close>, \<open>networkReplyHandler\<close>,
  \<open>queueTileParsing\<close> and \<open>insertTile\<close>, so it travels with the load job.
\<close>

type_synonym 'tile Registry = "TileCoord \<rightharpoonup> 'tile StoredTile"

text \<open>
  Modelled from the spec: \<open>state_of\<close>, the test hook (the body of \<open>getTileState\<close> is
  missing), and with it the payload that is resident for a coordinate.
\<close>

definition state_of :: "'tile Registry \<Rightarrow> TileCoord \<Rightarrow> LoadedTileState option" where
  "state_of reg coord = map_option state (reg coord)"

definition resident :: "'tile Registry \<Rightarrow> TileCoord \<rightharpoonup> 'tile" where
  "resident reg coord = (case reg coord of None \<Rightarrow> None | Some e \<Rightarrow> tile e)"

text \<open>
  Modelled from the spec: \<open>lookup\<close>, the single scan of the registry (the body of
  \<open>requestTiles\<close> is missing). It returns the payloads of the requested coordinates whose
  state is Ok, and the state of every requested coordinate that has an entry. An entry
  that is Ok and has no payload, which the invariant below excludes, adds nothing to the
  payloads.
\<close>

definition lookup ::
  "TileCoord list \<Rightarrow> 'tile Registry \<Rightarrow> (TileCoord \<rightharpoonup> 'tile) \<times> (TileCoord \<rightharpoonup> LoadedTileState)" where
  "lookup coords reg =
     ((\<lambda>c. case reg c of None \<Rightarrow> None
            | Some e \<Rightarrow> if isReadyToRender e then tile e else None) |` set coords,
      state_of reg |` set coords)"

text \<open>
  Modelled from the spec: \<open>insert_pending\<close> (the body of \<open>requestTiles\<close> is missing), on
  the entries of the header. A coordinate without an entry gets a Pending one
  (\<open>Created\<close>); a Pending entry is joined (\<open>Joined\<close>) and stays as it is, since a
  \<open>StoredTile\<close> has no place for the listener; an entry in a terminal state is left alone
  (\<open>AlreadyTerminal\<close>), and in that last case the listener is invoked at once if the state
  is Ok.
\<close>

datatype InsertOutcome = Created | Joined | AlreadyTerminal LoadedTileState

definition insert_pending :: "TileCoord \<Rightarrow> 'tile Registry \<Rightarrow> InsertOutcome \<times> 'tile Registry" where
  "insert_pending coord reg =
     (case reg coord of
        None \<Rightarrow> (Created, reg(coord \<mapsto> newPending))
      | Some e \<Rightarrow>
          if state e = Pending then (Joined, reg)
          else (AlreadyTerminal (state e), reg))"

text \<open>
  Modelled from the spec: whether \<open>insert_pending\<close> invokes the listener at once, read
  off its outcome.
\<close>

fun invoked_at_once :: "InsertOutcome \<Rightarrow> bool" where
  "invoked_at_once (AlreadyTerminal st) = (st = Ok)"
| "invoked_at_once _ = False"

text \<open>
  Modelled from the spec: \<open>transition\<close> (the body of \<open>insertTile\<close> is missing), on the
  entries of the header. It sets the new state and attaches the payload if the new state
  is Ok. A coordinate without an entry is an error of the registry, on which the program
  aborts: the result is \<open>None\<close>.
\<close>

definition transition ::
  "TileCoord \<Rightarrow> LoadedTileState \<Rightarrow> 'tile option \<Rightarrow> 'tile Registry \<Rightarrow> 'tile Registry option" where
  "transition coord new_state payload reg =
     (case reg coord of
        None \<Rightarrow> None
      | Some e \<Rightarrow>
          Some (reg(coord \<mapsto> \<lparr>state = new_state,
                                tile = (if new_state = Ok then payload else None)\<rparr>)))"

text \<open>
  Modelled from the spec: step 4 of \<open>request_tiles\<close> (the body of \<open>requestTiles\<close> is
  missing): \<open>insert_pending\<close> for each miss in turn. The result is the list of coordinates
  to dispatch (those created), the invocations made at once, and the registry.
\<close>

fun register_misses ::
  "TileCoord list \<Rightarrow> Listener \<Rightarrow> 'tile Registry
    \<Rightarrow> TileCoord list \<times> (Listener \<times> TileCoord) list \<times> 'tile Registry" where
  "register_misses [] listener reg = ([], [], reg)"
| "register_misses (c # cs) listener reg =
     (let (outcome, reg1) = insert_pending c reg;
          (dispatch, notified, reg2) = register_misses cs listener reg1
      in ((if outcome = Created then c # dispatch else dispatch),
          (if invoked_at_once outcome then (listener, c) # notified else notified),
          reg2))"

text \<open>
  Modelled from the spec: \<open>request_tiles\<close>, steps 1 to 4 (the body of \<open>requestTiles\<close> is
  missing). The wanted coordinates are a set: the list that stands for it is freed of
  duplicates before the misses are registered. The result is the map of hits, the list of
  coordinates to dispatch, the invocations made at once, and the registry.
\<close>

definition request_tiles ::
  "TileCoord list \<Rightarrow> Listener option \<Rightarrow> bool \<Rightarrow> 'tile Registry
    \<Rightarrow> (TileCoord \<rightharpoonup> 'tile) \<times> TileCoord list \<times> (Listener \<times> TileCoord) list \<times> 'tile Registry" where
  "request_tiles wanted on_loaded load_missing reg =
     (let (hits, states) = lookup wanted reg;
          misses = filter (\<lambda>c. states c \<noteq> Some Ok) (remdups wanted)
      in case on_loaded of
           None \<Rightarrow> (hits, [], [], reg)
         | Some listener \<Rightarrow>
             if \<not> load_missing then (hits, [], [], reg)
             else (hits, register_misses misses listener reg))"

section \<open>Load jobs and the loader as a whole\<close>

text \<open>
  Modelled from the spec: the configuration of the loader (the bodies of \<open>fromPbfLink\<close>,
  \<open>newLocalOnly\<close> and \<open>newDummy\<close> are missing). It is the mode and the parser, a function
  from bytes to a parsed tile that may fail.
\<close>

datatype Mode = WebEnabled string | LocalOnly | Dummy

type_synonym bytes = "nat list"

text \<open>
  Modelled from the spec: a load job (the bodies of \<open>loadFromDisk\<close> and \<open>loadFromWeb\<close> are
  missing). A job first reads the disk cache and, in a web-enabled loader, fetches from
  the network when the disk has no file. It carries the callback that the header hands
  from \<open>queueTileLoadingJobs\<close> on to \<open>insertTile\<close>, the argument \<open>signalFn\<close>.
\<close>

datatype JobPhase = ReadingDisk | Fetching

record LoadJob =
  phase :: JobPhase
  signalFn :: Listener

text \<open>
  Modelled from the spec: the state of the loader (the member functions that change it
  are missing). It is the registry, the load jobs in flight, the network fetches issued
  so far, the listener invocations made so far, each the pair of the listener and of the
  coordinate it was called with, and whether the program has aborted on an error of the
  registry. At the start there is no entry, no job, no fetch and no invocation. The
  content of the disk cache and the broadcast that a tile has finished are left out: no
  property below is about them.
\<close>

record 'tile Loader =
  registry :: "'tile Registry"
  jobs :: "TileCoord \<rightharpoonup> LoadJob"
  fetches :: "TileCoord list"
  invocations :: "(Listener \<times> TileCoord) list"
  aborted :: bool

definition initial :: "'tile Loader" where
  "initial = \<lparr>registry = Map.empty, jobs = Map.empty, fetches = [], invocations = [],
     aborted = False\<rparr>"

text \<open>
  Modelled from the spec: \<open>queueTileLoadingJobs\<close> (its body is missing). It starts a load
  job for each coordinate of its input; every job gets the one callback that the call was
  given.
\<close>

definition queueTileLoadingJobs ::
  "TileCoord list \<Rightarrow> Listener \<Rightarrow> (TileCoord \<rightharpoonup> LoadJob) \<Rightarrow> (TileCoord \<rightharpoonup> LoadJob)" where
  "queueTileLoadingJobs input fn js =
     fold (\<lambda>c j. j(c \<mapsto> \<lparr>phase = ReadingDisk, signalFn = fn\<rparr>)) input js"

text \<open>
  Modelled from the spec: the end of a load job (the bodies of \<open>insertTile\<close> and
  \<open>networkReplyHandler\<close> are missing). The worker calls \<open>transition\<close> and then invokes the
  callback of the job if the new state is Ok; for a tile that failed, no callback is
  invoked.
\<close>

definition finish ::
  "TileCoord \<Rightarrow> LoadedTileState \<Rightarrow> 'tile option \<Rightarrow> Listener \<Rightarrow> 'tile Loader \<Rightarrow> 'tile Loader" where
  "finish coord new_state payload fn s =
     (case transition coord new_state payload (registry s) of
        None \<Rightarrow> s\<lparr>aborted := True\<rparr>
      | Some reg' \<Rightarrow>
          s\<lparr>registry := reg',
            jobs := (jobs s)(coord := None),
            invocations := invocations s @ (if new_state = Ok then [(fn, coord)] else [])\<rparr>)"

text \<open>
  Modelled from the spec: parsing the bytes of a tile (the body of \<open>queueTileParsing\<close> is
  missing). Success installs the tile as Ok, failure makes the tile ParsingFailed.
\<close>

definition parse_and_install ::
  "(bytes \<Rightarrow> 'tile option) \<Rightarrow> TileCoord \<Rightarrow> bytes \<Rightarrow> Listener \<Rightarrow> 'tile Loader \<Rightarrow> 'tile Loader" where
  "parse_and_install parser coord bs fn s =
     (case parser bs of
        None \<Rightarrow> finish coord ParsingFailed None fn s
      | Some t \<Rightarrow> finish coord Ok (Some t) fn s)"

text \<open>
  Modelled from the spec: what can happen to the loader (the member functions are
  missing). A thread calls \<open>request_tiles\<close>; the disk read of a load job ends, with the
  bytes of the file or without a file; the network answers the fetch of a load job, with
  the bytes of the tile or with a failure. The outcome of the disk read and of the fetch
  is part of the event. Each event is atomic: the registry is only touched under its one
  lock, and a coordinate has at most one job.
\<close>

datatype event =
    Request "TileCoord list" "Listener option" bool
  | DiskRead TileCoord "bytes option"
  | FetchReply TileCoord "bytes option"

text \<open>
  Modelled from the spec: one step of the loader (the bodies of \<open>requestTiles\<close>,
  \<open>queueTileLoadingJobs\<close>, \<open>loadFromDisk\<close>, \<open>loadFromWeb\<close> and \<open>networkReplyHandler\<close> are
  missing). A request runs steps 1 to 4 of \<open>request_tiles\<close> under the lock and then
  queues a load job for each created entry, with its listener as the callback, unless the
  mode is Dummy, which never dispatches work. A disk read that finds the file goes on to
  parsing; one that finds none issues the fetch in a web-enabled loader and fails the tile
  otherwise. A failed fetch fails the tile with UnknownError, a successful one goes on to
  parsing. An event for a job that is not in flight, or in the other phase, cannot happen
  and changes nothing; an aborted program does nothing any more.
\<close>

fun step :: "Mode \<Rightarrow> (bytes \<Rightarrow> 'tile option) \<Rightarrow> event \<Rightarrow> 'tile Loader \<Rightarrow> 'tile Loader" where
  "step mode parser (Request wanted on_loaded load_missing) s =
     (if aborted s then s
      else
        let (hits, dispatch, notified, reg') =
              request_tiles wanted on_loaded load_missing (registry s)
        in s\<lparr>registry := reg',
             jobs := (case on_loaded of
                        None \<Rightarrow> jobs s
                      | Some listener \<Rightarrow>
                          (case mode of
                             Dummy \<Rightarrow> jobs s
                           | _ \<Rightarrow> queueTileLoadingJobs dispatch listener (jobs s))),
             invocations := invocations s @ notified\<rparr>)"
| "step mode parser (DiskRead coord result) s =
     (case jobs s coord of
        None \<Rightarrow> s
      | Some job \<Rightarrow>
          if aborted s \<or> phase job \<noteq> ReadingDisk then s
          else
            case result of
              Some bs \<Rightarrow> parse_and_install parser coord bs (signalFn job) s
            | None \<Rightarrow>
                (case mode of
                   WebEnabled url_template \<Rightarrow>
                     s\<lparr>jobs := (jobs s)(coord \<mapsto> job\<lparr>phase := Fetching\<rparr>),
                       fetches := fetches s @ [coord]\<rparr>
                 | _ \<Rightarrow> finish coord UnknownError None (signalFn job) s))"
| "step mode parser (FetchReply coord result) s =
     (case jobs s coord of
        None \<Rightarrow> s
      | Some job \<Rightarrow>
          if aborted s \<or> phase job \<noteq> Fetching then s
          else
            case result of
              None \<Rightarrow> finish coord UnknownError None (signalFn job) s
            | Some bs \<Rightarrow> parse_and_install parser coord bs (signalFn job) s)"

text \<open>
  Modelled from the spec: the loader after a list of events, in the order in which they
  happen; every interleaving of calls and load jobs is such a list.
\<close>

definition run ::
  "Mode \<Rightarrow> (bytes \<Rightarrow> 'tile option) \<Rightarrow> event list \<Rightarrow> 'tile Loader \<Rightarrow> 'tile Loader" where
  "run mode parser evs s = fold (step mode parser) evs s"

section \<open>Notions for stating the properties\<close>

text \<open>The entry that \<open>insert_pending\<close> leaves at its coordinate, given the entry before.\<close>

definition registered :: "'tile StoredTile option \<Rightarrow> 'tile StoredTile" where
  "registered entry = (case entry of None \<Rightarrow> newPending | Some e \<Rightarrow> e)"

text \<open>The listeners that were invoked with a given coordinate as argument, in order.\<close>

definition invoked_for :: "TileCoord \<Rightarrow> 'tile Loader \<Rightarrow> Listener list" where
  "invoked_for c s = map fst (filter (\<lambda>p. snd p = c) (invocations s))"

text \<open>
  The invariant of the loader: the program has not aborted; a coordinate with a load job
  in flight is Pending; an entry is Ok exactly when it has a payload; a coordinate that
  was fetched has an entry and no job that still reads the disk; no coordinate was fetched
  twice; every invocation of a listener was for a coordinate that is Ok; and at most one
  invocation was made for each coordinate.
\<close>

definition invariant :: "'tile Loader \<Rightarrow> bool" where
  "invariant s \<longleftrightarrow>
     \<not> aborted s
   \<and> (\<forall>c. jobs s c \<noteq> None \<longrightarrow> state_of (registry s) c = Some Pending)
   \<and> (\<forall>c e. registry s c = Some e \<longrightarrow> (state e = Ok) = (tile e \<noteq> None))
   \<and> (\<forall>c j. c \<in> set (fetches s) \<longrightarrow>
         registry s c \<noteq> None \<and> (jobs s c = Some j \<longrightarrow> phase j \<noteq> ReadingDisk))
   \<and> distinct (fetches s)
   \<and> (\<forall>p \<in> set (invocations s). state_of (registry s) (snd p) = Some Ok)
   \<and> (\<forall>c. length (invoked_for c s) \<le> 1)"

text \<open>
  Inputs for the examples: a coordinate, a URL template, and a parser that fails on the
  empty byte sequence and otherwise yields the number of bytes as the parsed tile.
\<close>

definition tile_2_1_1 :: TileCoord where
  "tile_2_1_1 = \<lparr>zoom = 2, tile_x = 1, tile_y = 1\<rparr>"

definition example_template :: string where
  "example_template = ''https://tiles.example/{z}/{x}/{y}.pbf?key=k''"

definition example_parser :: "bytes \<Rightarrow> nat option" where
  "example_parser bs = (if bs = [] then None else Some (length bs))"

section \<open>Properties of the tile URL\<close>

subsection \<open>Replacement\<close>

lemma replace_Nil [simp]: "bef \<noteq> [] \<Longrightarrow> replace bef aft [] = []"
  by (simp add: replace.simps)

lemma replace_Cons: "bef \<noteq> [] \<Longrightarrow> replace bef aft (c # cs) =
   (if prefix bef (c # cs) then aft @ replace bef aft (drop (length bef) (c # cs))
    else c # replace bef aft cs)"
  by (subst replace.simps) simp

lemma replace_skip: "p \<noteq> [] \<Longrightarrow> hd p \<notin> set r \<Longrightarrow> replace p a (r @ s) = r @ replace p a s"
proof (induction r)
  case Nil then show ?case by simp
next
  case (Cons c r)
  then have "\<not> prefix p (c # r @ s)" by (cases p) auto
  with Cons show ?case by (simp add: replace_Cons)
qed

lemma prefix_replace: "prefix q (replace p r s) \<Longrightarrow> p \<noteq> [] \<Longrightarrow> r \<noteq> [] \<Longrightarrow> set r \<inter> set q = {} \<Longrightarrow> prefix q s"
proof (induction q arbitrary: s)
  case Nil then show ?case by simp
next
  case (Cons a q)
  show ?case
  proof (cases s)
    case Nil with Cons.prems show ?thesis by simp
  next
    case (Cons d ds)
    show ?thesis
    proof (cases "prefix p s")
      case True
      with Cons.prems Cons have "prefix (a # q) (r @ replace p r (drop (length p) s))"
        by (simp add: replace_Cons)
      with Cons.prems have False by (cases r) auto
      then show ?thesis ..
    next
      case False
      with Cons.prems Cons have "prefix (a # q) (d # replace p r ds)" by (simp add: replace_Cons)
      with Cons.IH[of ds] Cons.prems Cons show ?thesis by auto
    qed
  qed
qed

lemma replace_absent: "\<not> occurs_in p s \<Longrightarrow> p \<noteq> [] \<Longrightarrow> replace p r s = s"
  by (induction s) (simp_all add: replace_Cons)

subsection \<open>Decimal representations\<close>

lemma digit_char_in: "digit_char d \<in> number_chars"
proof -
  have "d mod 10 < length ''0123456789''" by simp
  then have "''0123456789'' ! (d mod 10) \<in> set ''0123456789''" by (rule nth_mem)
  then show ?thesis unfolding digit_char_def number_chars_def by (simp only: set_simps insert_iff simp_thms)
qed

lemma decimal_chars: "set (decimal n) \<subseteq> number_chars"
proof (induction n rule: decimal.induct)
  case (1 n)
  show ?case
  proof (cases "n < 10")
    case True
    then have "decimal n = [digit_char n]" by (subst decimal.simps) simp
    then show ?thesis using digit_char_in[of n] by simp
  next
    case False
    then have "decimal n = decimal (n div 10) @ [digit_char n]" by (subst decimal.simps) simp
    then show ?thesis using 1[OF False] digit_char_in[of n] by simp
  qed
qed

lemma decimal_nonempty: "decimal n \<noteq> []"
  by (subst decimal.simps) simp

lemma minus_in: "CHR ''-'' \<in> number_chars"
  unfolding number_chars_def by simp

lemma number_in_chars: "set (number i) \<subseteq> number_chars"
  using decimal_chars[of "nat (- i)"] decimal_chars[of "nat i"] minus_in unfolding number_def by simp

lemma number_nonempty: "number i \<noteq> []"
  by (simp add: number_def decimal_nonempty)

lemma placeholder_chars:
  "CHR ''{'' \<notin> number_chars" "CHR ''}'' \<notin> number_chars"
  "CHR ''x'' \<notin> number_chars" "CHR ''y'' \<notin> number_chars" "CHR ''z'' \<notin> number_chars"
  unfolding number_chars_def by simp_all

subsection \<open>The three replacements in a row are one simultaneous substitution\<close>

lemma not_prefix_replace:
  "\<not> prefix (a # q) (c # cs) \<Longrightarrow> p \<noteq> [] \<Longrightarrow> r \<noteq> [] \<Longrightarrow> set r \<inter> set q = {}
   \<Longrightarrow> \<not> prefix (a # q) (c # replace p r cs)"
  by (auto dest: prefix_replace)

lemma disjoint_placeholder:
  assumes "set r \<subseteq> number_chars"
  shows "set r \<inter> set ''z}'' = {}" "set r \<inter> set ''x}'' = {}" "set r \<inter> set ''y}'' = {}"
    "CHR ''{'' \<notin> set r"
  using assms placeholder_chars by auto

lemma replace_hit: "replace (a # q) r ((a # q) @ s) = r @ replace (a # q) r s"
  by (simp add: replace_Cons)

lemma replace_miss:
  "\<not> prefix p (c # cs) \<Longrightarrow> p \<noteq> [] \<Longrightarrow> replace p r (c # cs) = c # replace p r cs"
  by (simp add: replace_Cons)

lemma replace_other:
  "b \<noteq> b' \<Longrightarrow> a \<noteq> b' \<Longrightarrow> a \<noteq> e \<Longrightarrow>
   replace [a, b, e] r ([a, b', e] @ s) = [a, b', e] @ replace [a, b, e] r s"
  by (simp add: replace_Cons)

lemma sequential_is_simultaneous:
  "set zs \<subseteq> number_chars \<Longrightarrow> zs \<noteq> [] \<Longrightarrow> set xs \<subseteq> number_chars \<Longrightarrow> xs \<noteq> [] \<Longrightarrow>
   set ys \<subseteq> number_chars \<Longrightarrow> ys \<noteq> [] \<Longrightarrow>
   replace ''{y}'' ys (replace ''{x}'' xs (replace ''{z}'' zs t))
     = substitute_placeholders zs xs ys t"
proof (induction zs xs ys t rule: substitute_placeholders.induct)
  case (1 zs xs ys)
  show ?case by simp
next
  case (2 zs xs ys c cs)
  note dz = disjoint_placeholder[OF \<open>set zs \<subseteq> number_chars\<close>]
   and dx = disjoint_placeholder[OF \<open>set xs \<subseteq> number_chars\<close>]
  note ne = \<open>zs \<noteq> []\<close> \<open>xs \<noteq> []\<close>
  let ?seq = "\<lambda>t. replace ''{y}'' ys (replace ''{x}'' xs (replace ''{z}'' zs t))"
  consider (z) "prefix ''{z}'' (c # cs)"
    | (x) "\<not> prefix ''{z}'' (c # cs)" "prefix ''{x}'' (c # cs)"
    | (y) "\<not> prefix ''{z}'' (c # cs)" "\<not> prefix ''{x}'' (c # cs)" "prefix ''{y}'' (c # cs)"
    | (none) "\<not> prefix ''{z}'' (c # cs)" "\<not> prefix ''{x}'' (c # cs)" "\<not> prefix ''{y}'' (c # cs)"
    by blast
  then show ?case
  proof cases
    case z
    then obtain rest where t: "c # cs = ''{z}'' @ rest" by (auto simp: prefix_def)
    then have rest: "drop 2 cs = rest" by simp
    have "replace ''{z}'' zs (c # cs) = zs @ replace ''{z}'' zs rest"
      unfolding t by (rule replace_hit)
    then have "?seq (c # cs) = zs @ ?seq rest"
      using dz(4) dx(4) by (simp add: replace_skip)
    moreover have "?seq rest = substitute_placeholders zs xs ys rest"
      using "2.IH"(1)[OF z] "2.prems" rest by simp
    ultimately show ?thesis using z rest by simp
  next
    case x
    then obtain rest where t: "c # cs = ''{x}'' @ rest" by (auto simp: prefix_def)
    then have rest: "drop 2 cs = rest" by simp
    have "replace ''{z}'' zs (c # cs) = ''{x}'' @ replace ''{z}'' zs rest"
      unfolding t by (rule replace_other) simp_all
    then have "replace ''{x}'' xs (replace ''{z}'' zs (c # cs)) = xs @ replace ''{x}'' xs (replace ''{z}'' zs rest)"
      by (simp only: replace_hit)
    then have "?seq (c # cs) = xs @ ?seq rest"
      using dx(4) by (simp add: replace_skip)
    moreover have "?seq rest = substitute_placeholders zs xs ys rest"
      using "2.IH"(2)[OF x] "2.prems" rest by simp
    ultimately show ?thesis using x rest by simp
  next
    case y
    then obtain rest where t: "c # cs = ''{y}'' @ rest" by (auto simp: prefix_def)
    then have rest: "drop 2 cs = rest" by simp
    have "replace ''{z}'' zs (c # cs) = ''{y}'' @ replace ''{z}'' zs rest"
      unfolding t by (rule replace_other) simp_all
    moreover have "replace ''{x}'' xs (''{y}'' @ replace ''{z}'' zs rest)
        = ''{y}'' @ replace ''{x}'' xs (replace ''{z}'' zs rest)"
      by (rule replace_other) simp_all
    ultimately have "replace ''{x}'' xs (replace ''{z}'' zs (c # cs)) = ''{y}'' @ replace ''{x}'' xs (replace ''{z}'' zs rest)"
      by (simp only:)
    then have "?seq (c # cs) = ys @ ?seq rest"
      by (simp only: replace_hit)
    moreover have "?seq rest = substitute_placeholders zs xs ys rest"
      using "2.IH"(3)[OF y] "2.prems" rest by simp
    ultimately show ?thesis using y rest by simp
  next
    case none
    have 1: "replace ''{z}'' zs (c # cs) = c # replace ''{z}'' zs cs"
      using none(1) by (simp add: replace_miss)
    have "\<not> prefix ''{x}'' (c # replace ''{z}'' zs cs)"
      by (rule not_prefix_replace[OF none(2) _ ne(1) dz(2)]) simp
    then have 2: "replace ''{x}'' xs (c # replace ''{z}'' zs cs) = c # replace ''{x}'' xs (replace ''{z}'' zs cs)"
      by (simp add: replace_miss)
    have y1: "\<not> prefix ''{y}'' (c # replace ''{z}'' zs cs)"
      by (rule not_prefix_replace[OF none(3) _ ne(1) dz(3)]) simp
    have "\<not> prefix ''{y}'' (c # replace ''{x}'' xs (replace ''{z}'' zs cs))"
      by (rule not_prefix_replace[OF y1 _ ne(2) dx(3)]) simp
    then have 3: "?seq (c # cs) = c # ?seq cs"
      unfolding 1 2 by (simp add: replace_miss)
    have "?seq cs = substitute_placeholders zs xs ys cs"
      using "2.IH"(4)[OF none] "2.prems" by simp
    moreover have "substitute_placeholders zs xs ys (c # cs) = c # substitute_placeholders zs xs ys cs"
      using none by (simp only: substitute_placeholders.simps if_False)
    ultimately show ?thesis using 3 by (simp only:)
  qed
qed

text \<open>
  C2: for every tile coordinate and every template, \<open>getPbfLink\<close> returns the template with
  every occurrence of \<open>{z}\<close>, \<open>{x}\<close> and \<open>{y}\<close> replaced by the decimal representation of
  the zoom level, of x and of y, and with every other character unchanged: the three
  replacements in a row are the one-pass substitution \<open>url_spec\<close>.
\<close>

theorem getPbfLink_substitutes: "getPbfLink tileCoord pbfLinkTemplate = url_spec tileCoord pbfLinkTemplate"
  unfolding getPbfLink_def url_spec_def Let_def
  by (rule sequential_is_simultaneous) (simp_all add: number_in_chars number_nonempty)

text \<open>
  C10: a template that contains none of \<open>{z}\<close>, \<open>{x}\<close> and \<open>{y}\<close> is returned unchanged,
  whatever the coordinate is; the function has no way to signal an error, its result is
  always a string.
\<close>

theorem getPbfLink_no_placeholder:
  "\<not> occurs_in ''{z}'' pbfLinkTemplate \<Longrightarrow> \<not> occurs_in ''{x}'' pbfLinkTemplate \<Longrightarrow>
   \<not> occurs_in ''{y}'' pbfLinkTemplate \<Longrightarrow> getPbfLink tileCoord pbfLinkTemplate = pbfLinkTemplate"
  by (simp add: getPbfLink_def replace_absent)

theorem getPbfLink_no_placeholder_witness:
  "\<not> occurs_in ''{z}'' ''https://tiles.example/0.pbf?key=k''
   \<and> \<not> occurs_in ''{x}'' ''https://tiles.example/0.pbf?key=k''
   \<and> \<not> occurs_in ''{y}'' ''https://tiles.example/0.pbf?key=k''
   \<and> getPbfLink \<lparr>zoom = 3, tile_x = 4, tile_y = 5\<rparr> ''https://tiles.example/0.pbf?key=k''
       = ''https://tiles.example/0.pbf?key=k''"
proof -
  have z: "\<not> occurs_in ''{z}'' ''https://tiles.example/0.pbf?key=k''" by simp
  have x: "\<not> occurs_in ''{x}'' ''https://tiles.example/0.pbf?key=k''" by simp
  have y: "\<not> occurs_in ''{y}'' ''https://tiles.example/0.pbf?key=k''" by simp
  show ?thesis
    using z x y getPbfLink_no_placeholder [OF z x y, of "\<lparr>zoom = 3, tile_x = 4, tile_y = 5\<rparr>"]
    by (simp only: simp_thms)
qed

section \<open>Properties of the declarations of the header\<close>

text \<open>
  C9: \<open>isReadyToRender\<close> is true exactly when the state is Ok; it is false for Pending and
  for each of the terminal states other than Ok.
\<close>

theorem isReadyToRender_iff_Ok:
  "isReadyToRender t = (state t = Ok)
   \<and> \<not> isReadyToRender (t\<lparr>state := Pending\<rparr>)
   \<and> \<not> isReadyToRender (t\<lparr>state := ParsingFailed\<rparr>)
   \<and> \<not> isReadyToRender (t\<lparr>state := Cancelled\<rparr>)
   \<and> \<not> isReadyToRender (t\<lparr>state := UnknownError\<rparr>)"
  by (simp add: isReadyToRender_def)

text \<open>
  C7: the two shorthand forms of \<open>requestTiles\<close> are the three-argument form, with a null
  listener in the one and with \<open>load_missing\<close> set exactly when the listener is not null in
  the other, for every three-argument function they forward to. With the listener left
  out, the second form passes a null listener and loads nothing.
\<close>

theorem requestTiles_shorthands:
  "requestTiles_loadMissing request_full wanted load_missing
     = shorthand_load_missing request_full wanted load_missing
   \<and> requestTiles_signalFn request_full wanted on_loaded
     = shorthand_on_loaded request_full wanted on_loaded
   \<and> requestTiles_loadMissing request_full wanted load_missing
     = request_full wanted None load_missing
   \<and> requestTiles_signalFn request_full wanted on_loaded
     = request_full wanted on_loaded (on_loaded \<noteq> None)
   \<and> requestTiles_default request_full wanted = request_full wanted None False"
  by (cases on_loaded)
     (simp_all add: requestTiles_loadMissing_def requestTiles_signalFn_def
        requestTiles_default_def shorthand_load_missing_def shorthand_on_loaded_def)

lemma default_StoredTile_ready:
  "isReadyToRender (default_StoredTile :: 'tile StoredTile)
   \<and> tile (default_StoredTile :: 'tile StoredTile) = None"
  by (simp add: isReadyToRender_def default_StoredTile_def)

lemma newPending_fields:
  "state (newPending :: 'tile StoredTile) = Pending \<and> tile (newPending :: 'tile StoredTile) = None"
  by (simp add: newPending_def default_StoredTile_def)

section \<open>Properties of the registry and of the request coordinator\<close>

subsection \<open>What a request does to the registry\<close>

lemma insert_pending_registry:
  "snd (insert_pending c reg) = reg(c \<mapsto> registered (reg c))"
  by (auto simp: insert_pending_def registered_def split: option.splits)

lemma insert_pending_outcome:
  "fst (insert_pending c reg) =
     (case reg c of None \<Rightarrow> Created
      | Some e \<Rightarrow> if state e = Pending then Joined else AlreadyTerminal (state e))"
  by (simp add: insert_pending_def split: option.splits)

lemma insert_pending_Created: "fst (insert_pending c reg) = Created \<longleftrightarrow> reg c = None"
  by (simp add: insert_pending_outcome split: option.splits)

lemma insert_pending_at_once:
  "invoked_at_once (fst (insert_pending c reg)) \<longleftrightarrow> state_of reg c = Some Ok"
  by (auto simp: insert_pending_outcome state_of_def split: option.splits)

lemma register_misses_Cons:
  "register_misses (c # cs) l reg =
     ((if reg c = None then [c] else []) @ fst (register_misses cs l (reg(c \<mapsto> registered (reg c)))),
      (if state_of reg c = Some Ok then [(l, c)] else [])
        @ fst (snd (register_misses cs l (reg(c \<mapsto> registered (reg c))))),
      snd (snd (register_misses cs l (reg(c \<mapsto> registered (reg c))))))"
proof -
  obtain outcome reg1 where ip: "insert_pending c reg = (outcome, reg1)"
    by (cases "insert_pending c reg")
  have reg1: "reg1 = reg(c \<mapsto> registered (reg c))"
    using insert_pending_registry[of c reg] ip by simp
  have out: "(outcome = Created) = (reg c = None)"
    "invoked_at_once outcome = (state_of reg c = Some Ok)"
    using insert_pending_Created[of c reg] insert_pending_at_once[of c reg] ip by simp_all
  show ?thesis
    by (simp add: ip out reg1[symmetric] split: prod.splits)
qed

lemma register_misses_registry:
  "distinct cs \<Longrightarrow>
   snd (snd (register_misses cs l reg)) c = (if c \<in> set cs then Some (registered (reg c)) else reg c)"
proof (induction cs arbitrary: reg)
  case Nil then show ?case by simp
next
  case (Cons a cs)
  then show ?case by (simp only: register_misses_Cons snd_conv) auto
qed

lemma register_misses_dispatch:
  "distinct cs \<Longrightarrow> fst (register_misses cs l reg) = filter (\<lambda>c. reg c = None) cs"
proof (induction cs arbitrary: reg)
  case Nil then show ?case by simp
next
  case (Cons a cs)
  then have "fst (register_misses cs l (reg(a \<mapsto> registered (reg a)))) = filter (\<lambda>c. reg c = None) cs"
    by (auto intro: filter_cong)
  then show ?case by (simp add: register_misses_Cons del: register_misses.simps)
qed

lemma state_of_upd_registered:
  "state_of (reg(a \<mapsto> registered (reg a))) c = Some Ok \<longleftrightarrow> state_of reg c = Some Ok"
  by (auto simp: state_of_def registered_def newPending_def default_StoredTile_def split: option.splits)

lemma register_misses_notified:
  "fst (snd (register_misses cs l reg)) = map (Pair l) (filter (\<lambda>c. state_of reg c = Some Ok) cs)"
proof (induction cs arbitrary: reg)
  case Nil then show ?case by simp
next
  case (Cons a cs)
  have "fst (snd (register_misses cs l (reg(a \<mapsto> registered (reg a)))))
      = map (Pair l) (filter (\<lambda>c. state_of reg c = Some Ok) cs)"
    by (simp only: Cons.IH state_of_upd_registered)
  then show ?case
    by (simp add: register_misses_Cons del: register_misses.simps)
qed

lemma lookup_states: "snd (lookup w reg) c = (if c \<in> set w then state_of reg c else None)"
  by (simp add: lookup_def restrict_map_def)

lemma lookup_hits:
  "fst (lookup w reg) c =
     (if c \<in> set w
      then (case reg c of None \<Rightarrow> None
            | Some e \<Rightarrow> if state e = Ok then tile e else None)
      else None)"
  by (auto simp: lookup_def restrict_map_def isReadyToRender_def split: option.splits)

lemma misses_eq:
  "filter (\<lambda>c. snd (lookup w reg) c \<noteq> Some Ok) (remdups w)
     = filter (\<lambda>c. state_of reg c \<noteq> Some Ok) (remdups w)"
  by (rule filter_cong) (simp_all add: lookup_states)

lemma request_tiles_unfold:
  "request_tiles w ol lm reg =
     (case ol of
        None \<Rightarrow> (fst (lookup w reg), [], [], reg)
      | Some l \<Rightarrow>
          if \<not> lm then (fst (lookup w reg), [], [], reg)
          else (fst (lookup w reg),
                register_misses (filter (\<lambda>c. state_of reg c \<noteq> Some Ok) (remdups w)) l reg))"
proof -
  obtain hits states where lk: "lookup w reg = (hits, states)" by (cases "lookup w reg")
  have "filter (\<lambda>c. states c \<noteq> Some Ok) (remdups w)
      = filter (\<lambda>c. state_of reg c \<noteq> Some Ok) (remdups w)"
    using misses_eq[of w reg] lk by simp
  then show ?thesis
    by (simp add: request_tiles_def lk split: option.splits)
qed

lemma request_tiles_hits: "fst (request_tiles w ol lm reg) = fst (lookup w reg)"
  by (simp add: request_tiles_unfold split: option.splits)

lemma request_tiles_registry:
  "snd (snd (snd (request_tiles w ol lm reg))) c =
     (if ol \<noteq> None \<and> lm \<and> c \<in> set w \<and> reg c = None then Some newPending else reg c)"
  by (auto simp: request_tiles_unfold register_misses_registry registered_def state_of_def
      split: option.splits)

lemma request_tiles_dispatch:
  "fst (snd (request_tiles w ol lm reg)) =
     (if ol \<noteq> None \<and> lm then filter (\<lambda>c. reg c = None) (remdups w) else [])"
proof -
  have "filter (\<lambda>c. reg c = None) (filter (\<lambda>c. state_of reg c \<noteq> Some Ok) (remdups w))
      = filter (\<lambda>c. reg c = None) (remdups w)"
    unfolding filter_filter by (rule filter_cong) (auto simp: state_of_def)
  then show ?thesis
    by (simp add: request_tiles_unfold register_misses_dispatch split: option.splits)
qed

lemma request_tiles_notified: "fst (snd (snd (request_tiles w ol lm reg))) = []"
proof -
  have "filter (\<lambda>c. state_of reg c = Some Ok) (filter (\<lambda>c. state_of reg c \<noteq> Some Ok) (remdups w)) = []"
    unfolding filter_filter by simp
  then show ?thesis
    by (simp add: request_tiles_unfold register_misses_notified split: option.splits)
qed

lemma queueTileLoadingJobs_apply:
  "queueTileLoadingJobs cs fn js c =
     (if c \<in> set cs then Some \<lparr>phase = ReadingDisk, signalFn = fn\<rparr> else js c)"
  unfolding queueTileLoadingJobs_def by (induction cs arbitrary: js) auto

lemma step_Request_registry:
  "\<not> aborted s \<Longrightarrow> registry (step mode parser (Request w ol lm) s) c =
     (if ol \<noteq> None \<and> lm \<and> c \<in> set w \<and> registry s c = None then Some newPending
      else registry s c)"
  using request_tiles_registry[of w ol lm "registry s" c]
  by (simp add: split_beta)

lemma step_Request_jobs:
  "\<not> aborted s \<Longrightarrow> jobs (step mode parser (Request w ol lm) s) c =
     (case ol of
        None \<Rightarrow> jobs s c
      | Some l \<Rightarrow>
          if mode \<noteq> Dummy \<and> lm \<and> c \<in> set w \<and> registry s c = None
          then Some \<lparr>phase = ReadingDisk, signalFn = l\<rparr> else jobs s c)"
  using request_tiles_dispatch[of w ol lm "registry s"]
  by (cases mode; cases ol) (simp_all add: split_beta queueTileLoadingJobs_apply)

lemma step_Request_rest:
  "fetches (step mode parser (Request w ol lm) s) = fetches s"
  "invocations (step mode parser (Request w ol lm) s) = invocations s"
  "aborted (step mode parser (Request w ol lm) s) = aborted s"
  using request_tiles_notified[of w ol lm "registry s"]
  by (simp_all add: split_beta)

declare step.simps [simp del]

text \<open>
  C3: every coordinate in the result of \<open>request_tiles\<close> is one of the wanted ones, has
  state Ok in the registry as the call leaves it, and carries the payload that is resident
  there: the result is a part of the tiles resident in memory.
\<close>

theorem hits_are_Ok:
  assumes "request_tiles wanted on_loaded load_missing reg = (hits, dispatch, notified, reg')"
  shows "(\<forall>c \<in> dom hits. c \<in> set wanted \<and> state_of reg' c = Some Ok \<and> resident reg' c = hits c)
       \<and> hits \<subseteq>\<^sub>m resident reg'"
proof -
  have h: "hits = fst (lookup wanted reg)"
    using request_tiles_hits[of wanted on_loaded load_missing reg] assms by simp
  have r: "reg' c = (if on_loaded \<noteq> None \<and> load_missing \<and> c \<in> set wanted \<and> reg c = None
                     then Some newPending else reg c)" for c
    using request_tiles_registry[of wanted on_loaded load_missing reg c] assms by simp
  have 1: "c \<in> set wanted \<and> state_of reg' c = Some Ok \<and> resident reg' c = hits c"
    if "c \<in> dom hits" for c
  proof -
    from that obtain t where "hits c = Some t" by auto
    then obtain e where e: "c \<in> set wanted" "reg c = Some e" "state e = Ok" "tile e = Some t"
      unfolding h lookup_hits by (auto split: if_splits option.splits)
    then have "reg' c = reg c" unfolding r by simp
    then show ?thesis using e \<open>hits c = Some t\<close> by (simp add: state_of_def resident_def)
  qed
  then show ?thesis by (auto simp: map_le_def)
qed

theorem hits_are_Ok_witness:
  "tile_2_1_1 \<in> dom (fst (request_tiles [tile_2_1_1] None True
       [tile_2_1_1 \<mapsto> \<lparr>state = Ok, tile = Some (5::nat)\<rparr>]))
   \<and> state_of (snd (snd (snd (request_tiles [tile_2_1_1] None True
       [tile_2_1_1 \<mapsto> \<lparr>state = Ok, tile = Some (5::nat)\<rparr>]))))
       tile_2_1_1 = Some Ok"
proof -
  let ?reg = "[tile_2_1_1 \<mapsto> \<lparr>state = Ok, tile = Some (5::nat)\<rparr>]"
  let ?r = "request_tiles [tile_2_1_1] None True ?reg"
  have h: "?r = (fst ?r, fst (snd ?r), fst (snd (snd ?r)), snd (snd (snd ?r)))" by simp
  have d: "tile_2_1_1 \<in> dom (fst ?r)"
    by (simp add: request_tiles_hits lookup_def isReadyToRender_def dom_def)
  from hits_are_Ok [OF h] d show ?thesis by blast
qed

subsection \<open>The invariant\<close>

lemma invariant_initial: "invariant initial"
  by (simp add: invariant_def initial_def state_of_def invoked_for_def)

lemma state_of_Request:
  "\<not> aborted s \<Longrightarrow> state_of (registry (step mode parser (Request w ol lm) s)) c =
     (if ol \<noteq> None \<and> lm \<and> c \<in> set w \<and> registry s c = None then Some Pending
      else state_of (registry s) c)"
  by (simp add: state_of_def step_Request_registry newPending_def default_StoredTile_def)

lemma invoked_for_Request:
  "invoked_for c (step mode parser (Request w ol lm) s) = invoked_for c s"
  by (simp add: invoked_for_def step_Request_rest)

lemma invariant_Request:
  assumes "invariant s"
  shows "invariant (step mode parser (Request w ol lm) s)"
proof -
  let ?s = "step mode parser (Request w ol lm) s"
  have na: "\<not> aborted s" using assms by (simp add: invariant_def)
  note reg = step_Request_registry[OF na, of mode parser w ol lm]
   and jb = step_Request_jobs[OF na, of mode parser w ol lm]
   and st = state_of_Request[OF na, of mode parser w ol lm]
  have 1: "\<not> aborted ?s" using na by (simp add: step_Request_rest)
  have 2: "jobs ?s c \<noteq> None \<longrightarrow> state_of (registry ?s) c = Some Pending" for c
    using assms unfolding invariant_def jb st by (auto simp: state_of_def split: option.splits)
  have 3: "registry ?s c = Some e \<longrightarrow> (state e = Ok) = (tile e \<noteq> None)" for c e
    using assms unfolding invariant_def reg
    by (auto simp: newPending_def default_StoredTile_def split: if_splits)
  have 4: "c \<in> set (fetches ?s) \<longrightarrow>
      registry ?s c \<noteq> None \<and> (jobs ?s c = Some j \<longrightarrow> phase j \<noteq> ReadingDisk)" for c j
    using assms unfolding invariant_def reg jb step_Request_rest
    by (auto split: option.splits)
  have 5: "distinct (fetches ?s)" using assms unfolding invariant_def step_Request_rest by simp
  have 6: "\<forall>p \<in> set (invocations ?s). state_of (registry ?s) (snd p) = Some Ok"
    using assms unfolding invariant_def step_Request_rest st by (auto simp: state_of_def)
  have 7: "length (invoked_for c ?s) \<le> 1" for c
    using assms unfolding invariant_def invoked_for_Request by simp
  show ?thesis unfolding invariant_def using 1 2 3 4 5 6 7 by blast
qed

lemma finish_Some:
  "registry s c = Some e \<Longrightarrow> finish c st p fn s =
     s\<lparr>registry := (registry s)(c \<mapsto> \<lparr>state = st, tile = (if st = Ok then p else None)\<rparr>),
       jobs := (jobs s)(c := None),
       invocations := invocations s @ (if st = Ok then [(fn, c)] else [])\<rparr>"
  by (simp add: finish_def transition_def)

lemma invariant_job:
  assumes "invariant s" "jobs s c = Some j"
  obtains e where "registry s c = Some e" "state e = Pending"
proof -
  have "state_of (registry s) c = Some Pending" using assms by (simp add: invariant_def)
  then show thesis using that by (auto simp: state_of_def)
qed

lemma step_completion_cases:
  assumes inv: "invariant s" and ev: "ev = DiskRead c r \<or> ev = FetchReply c r"
  obtains (idle) "step mode parser ev s = s"
  | (fetch) j where "jobs s c = Some j" "phase j = ReadingDisk"
      "step mode parser ev s =
         s\<lparr>jobs := (jobs s)(c \<mapsto> j\<lparr>phase := Fetching\<rparr>), fetches := fetches s @ [c]\<rparr>"
  | (finished) e j st p where "registry s c = Some e" "state e = Pending" "jobs s c = Some j"
      "st \<noteq> Pending" "(st = Ok) = (p \<noteq> None)"
      "step mode parser ev s =
         s\<lparr>registry := (registry s)(c \<mapsto> \<lparr>state = st, tile = p\<rparr>),
           jobs := (jobs s)(c := None),
           invocations := invocations s @ (if st = Ok then [(signalFn j, c)] else [])\<rparr>"
proof -
  have na: "\<not> aborted s" using inv by (simp add: invariant_def)
  show thesis
  proof (cases "jobs s c")
    case None
    then have "step mode parser ev s = s" using ev by (auto simp: step.simps)
    then show thesis by (rule idle)
  next
    case (Some j)
    from invariant_job[OF inv Some] obtain e where e: "registry s c = Some e" "state e = Pending" .
    note fin = finished[OF e Some]
    have bad: "finish c st None (signalFn j) s =
         s\<lparr>registry := (registry s)(c \<mapsto> \<lparr>state = st, tile = None\<rparr>),
           jobs := (jobs s)(c := None),
           invocations := invocations s @ (if st = Ok then [(signalFn j, c)] else [])\<rparr>"
      if "st \<noteq> Ok" for st
      using that by (simp add: finish_Some[OF e(1)])
    have ok: "finish c Ok (Some t) (signalFn j) s =
         s\<lparr>registry := (registry s)(c \<mapsto> \<lparr>state = Ok, tile = Some t\<rparr>),
           jobs := (jobs s)(c := None),
           invocations := invocations s @ (if Ok = Ok then [(signalFn j, c)] else [])\<rparr>"
      for t
      by (simp add: finish_Some[OF e(1)])
    have parse: thesis if "step mode parser ev s = parse_and_install parser c bs (signalFn j) s" for bs
    proof (cases "parser bs")
      case None
      then have "step mode parser ev s = finish c ParsingFailed None (signalFn j) s"
        using that by (simp add: parse_and_install_def)
      then show thesis using fin[of ParsingFailed None] bad[of ParsingFailed] by simp
    next
      case (Some t)
      then have "step mode parser ev s = finish c Ok (Some t) (signalFn j) s"
        using that by (simp add: parse_and_install_def)
      then show thesis using fin[of Ok "Some t"] ok[of t] by simp
    qed
    have fail: thesis if "step mode parser ev s = finish c UnknownError None (signalFn j) s"
      using that fin[of UnknownError None] bad[of UnknownError] by simp
    from ev show thesis
    proof
      assume d: "ev = DiskRead c r"
      show thesis
      proof (cases "phase j")
        case Fetching
        then have "step mode parser ev s = s" using d Some by (simp add: step.simps)
        then show thesis by (rule idle)
      next
        case ReadingDisk
        show thesis
        proof (cases r)
          case (Some bs)
          then show thesis using d ReadingDisk \<open>jobs s c = Some j\<close> na
            by (intro parse[of bs]) (simp add: step.simps)
        next
          case None
          show thesis
          proof (cases mode)
            case (WebEnabled u)
            then show thesis using d ReadingDisk \<open>jobs s c = Some j\<close> na None
              by (intro fetch[of j]) (simp_all add: step.simps)
          next
            case LocalOnly
            then show thesis using d ReadingDisk \<open>jobs s c = Some j\<close> na None
              by (intro fail) (simp add: step.simps)
          next
            case Dummy
            then show thesis using d ReadingDisk \<open>jobs s c = Some j\<close> na None
              by (intro fail) (simp add: step.simps)
          qed
        qed
      qed
    next
      assume f: "ev = FetchReply c r"
      show thesis
      proof (cases "phase j")
        case ReadingDisk
        then have "step mode parser ev s = s" using f Some by (simp add: step.simps)
        then show thesis by (rule idle)
      next
        case Fetching
        show thesis
        proof (cases r)
          case (Some bs)
          then show thesis using f Fetching \<open>jobs s c = Some j\<close> na
            by (intro parse[of bs]) (simp add: step.simps)
        next
          case None
          then show thesis using f Fetching \<open>jobs s c = Some j\<close> na
            by (intro fail) (simp add: step.simps)
        qed
      qed
    qed
  qed
qed

lemma invoked_for_append:
  "map fst (filter (\<lambda>p. snd p = c) (xs @ (if b then [(l, c')] else [])))
     = map fst (filter (\<lambda>p. snd p = c) xs) @ (if b \<and> c' = c then [l] else [])"
  by simp

lemma not_invoked_yet:
  "invariant s \<Longrightarrow> state_of (registry s) c \<noteq> Some Ok \<Longrightarrow> invoked_for c s = []"
  unfolding invariant_def invoked_for_def by (auto simp: filter_empty_conv)

lemma invariant_completion:
  assumes inv: "invariant s" and ev: "ev = DiskRead c r \<or> ev = FetchReply c r"
  shows "invariant (step mode parser ev s)"
  using inv ev
proof (cases rule: step_completion_cases[where mode = mode and parser = parser])
  case idle
  then show ?thesis using inv by simp
next
  case (fetch j)
  have "c \<notin> set (fetches s)" using inv fetch(1,2) by (auto simp: invariant_def)
  moreover have "registry s c \<noteq> None" "state_of (registry s) c = Some Pending"
    using inv fetch(1) by (auto simp: invariant_def state_of_def)
  ultimately show ?thesis using inv unfolding fetch(3) invariant_def invoked_for_def by auto
next
  case (finished e j st p)
  let ?s = "step mode parser ev s"
  have pend: "state_of (registry s) c = Some Pending" using finished(1,2) by (simp add: state_of_def)
  have 1: "\<not> aborted ?s" using inv unfolding finished(6) invariant_def by simp
  have 2: "jobs ?s c' \<noteq> None \<longrightarrow> state_of (registry ?s) c' = Some Pending" for c'
    using inv unfolding finished(6) invariant_def by (auto simp: state_of_def)
  have 3: "registry ?s c' = Some e' \<longrightarrow> (state e' = Ok) = (tile e' \<noteq> None)" for c' e'
    using inv finished(5) unfolding finished(6) invariant_def by (auto split: if_splits)
  have 4: "c' \<in> set (fetches ?s) \<longrightarrow>
      registry ?s c' \<noteq> None \<and> (jobs ?s c' = Some j' \<longrightarrow> phase j' \<noteq> ReadingDisk)" for c' j'
    using inv unfolding finished(6) invariant_def by auto
  have 5: "distinct (fetches ?s)" using inv unfolding finished(6) invariant_def by simp
  have old: "state_of (registry ?s) (snd q) = Some Ok" if "q \<in> set (invocations s)" for q
  proof -
    have "state_of (registry s) (snd q) = Some Ok" using inv that by (simp add: invariant_def)
    then have "snd q \<noteq> c" using pend by auto
    then show ?thesis using \<open>state_of (registry s) (snd q) = Some Ok\<close>
      unfolding finished(6) by (simp add: state_of_def)
  qed
  have new: "state_of (registry ?s) c = Some Ok" if "st = Ok"
    using that unfolding finished(6) by (simp add: state_of_def)
  have 6: "\<forall>q \<in> set (invocations ?s). state_of (registry ?s) (snd q) = Some Ok"
  proof
    fix q assume "q \<in> set (invocations ?s)"
    then have "q \<in> set (invocations s) \<or> (st = Ok \<and> snd q = c)"
      unfolding finished(6) by (auto split: if_splits)
    then show "state_of (registry ?s) (snd q) = Some Ok" using old new by blast
  qed
  have 7: "length (invoked_for c' ?s) \<le> 1" for c'
  proof (cases "c' = c")
    case True
    have "invoked_for c s = []" using inv pend by (intro not_invoked_yet) simp_all
    then show ?thesis unfolding True finished(6) invoked_for_def
      by (simp add: invoked_for_append)
  next
    case False
    have "length (invoked_for c' s) \<le> 1" using inv by (simp add: invariant_def)
    then show ?thesis using False unfolding finished(6) invoked_for_def
      by (simp add: invoked_for_append)
  qed
  show ?thesis unfolding invariant_def using 1 2 3 4 5 6 7 by blast
qed

lemma invariant_step: "invariant s \<Longrightarrow> invariant (step mode parser ev s)"
  by (cases ev) (simp_all add: invariant_Request invariant_completion)

lemma run_Nil: "run mode parser [] s = s"
  by (simp add: run_def)

lemma run_Cons: "run mode parser (ev # evs) s = run mode parser evs (step mode parser ev s)"
  by (simp add: run_def)

lemma run_append: "run mode parser (evs @ evs') s = run mode parser evs' (run mode parser evs s)"
  by (simp add: run_def)

lemma run_snoc: "run mode parser (evs @ [ev]) s = step mode parser ev (run mode parser evs s)"
  by (simp add: run_def)

lemma invariant_run: "invariant s \<Longrightarrow> invariant (run mode parser evs s)"
  by (induction evs arbitrary: s) (simp_all add: run_Nil run_Cons invariant_step)

lemma invariant_reachable: "invariant (run mode parser evs initial)"
  by (rule invariant_run) (rule invariant_initial)

text \<open>
  C4: in every state that the loader reaches, every entry of the registry is Ok exactly
  when its payload is present; an entry that is Pending, ParsingFailed, Cancelled or
  UnknownError has no payload.
\<close>

theorem payload_iff_Ok:
  "registry (run mode parser evs initial) c = Some e \<Longrightarrow>
     (state e = Ok) = (tile e \<noteq> None)
   \<and> (state e \<in> {Pending, ParsingFailed, Cancelled, UnknownError} \<longrightarrow> tile e = None)"
proof -
  assume e: "registry (run mode parser evs initial) c = Some e"
  have "\<forall>c e. registry (run mode parser evs initial) c = Some e
          \<longrightarrow> (state e = Ok) = (tile e \<noteq> None)"
    using invariant_reachable[of mode parser evs] unfolding invariant_def by blast
  with e have "(state e = Ok) = (tile e \<noteq> None)" by blast
  then show ?thesis by auto
qed

theorem payload_iff_Ok_witness:
  "registry (run LocalOnly example_parser
       [Request [tile_2_1_1] (Some 1) True, DiskRead tile_2_1_1 (Some [7])] initial) tile_2_1_1
     = Some \<lparr>state = Ok, tile = Some 1\<rparr>
   \<and> (state \<lparr>state = Ok, tile = Some (1::nat)\<rparr> = Ok)
       = (tile \<lparr>state = Ok, tile = Some (1::nat)\<rparr> \<noteq> None)"
proof -
  have h: "registry (run LocalOnly example_parser
       [Request [tile_2_1_1] (Some 1) True, DiskRead tile_2_1_1 (Some [7])] initial) tile_2_1_1
     = Some \<lparr>state = Ok, tile = Some 1\<rparr>"
    by code_simp
  from payload_iff_Ok [OF h] h show ?thesis by blast
qed

lemma count_list_distinct: "distinct xs \<Longrightarrow> count_list xs x \<le> 1"
  by (induction xs) (auto simp: count_list_0_iff)

text \<open>
  C8: whatever the requests are and however they interleave with the load jobs, the
  number of network fetches issued for a coordinate is 0 or 1.
\<close>

theorem single_flight:
  "count_list (fetches (run mode parser evs initial)) c = 0
   \<or> count_list (fetches (run mode parser evs initial)) c = 1"
proof -
  have "distinct (fetches (run mode parser evs initial))"
    using invariant_reachable[of mode parser evs] by (simp add: invariant_def)
  from count_list_distinct[OF this, of c] show ?thesis by linarith
qed

lemma one_fetch_example:
  "fetches (run (WebEnabled example_template) example_parser
      [Request [tile_2_1_1] (Some 1) True, Request [tile_2_1_1] (Some 2) True,
       DiskRead tile_2_1_1 None, Request [tile_2_1_1] (Some 3) True,
       DiskRead tile_2_1_1 None, FetchReply tile_2_1_1 (Some [7, 7]),
       Request [tile_2_1_1] (Some 4) True, DiskRead tile_2_1_1 None] initial)
   = [tile_2_1_1]"
  by code_simp

subsection \<open>Terminal states are kept\<close>

lemma terminal_entry_step:
  assumes inv: "invariant s" and e: "registry s c = Some e" "state e \<noteq> Pending"
  shows "registry (step mode parser ev s) c = Some e"
proof (cases ev)
  case (Request w ol lm)
  have na: "\<not> aborted s" using inv by (simp add: invariant_def)
  show ?thesis unfolding Request step_Request_registry[OF na] using e by simp
next
  case (DiskRead c' r)
  then have ev: "ev = DiskRead c' r \<or> ev = FetchReply c' r" by simp
  from inv ev show ?thesis
  proof (cases rule: step_completion_cases[where mode = mode and parser = parser])
    case idle then show ?thesis using e by simp
  next
    case fetch then show ?thesis using e by simp
  next
    case (finished e' j st p)
    then have "c' \<noteq> c" using e by auto
    then show ?thesis using e unfolding finished(6) by simp
  qed
next
  case (FetchReply c' r)
  then have ev: "ev = DiskRead c' r \<or> ev = FetchReply c' r" by simp
  from inv ev show ?thesis
  proof (cases rule: step_completion_cases[where mode = mode and parser = parser])
    case idle then show ?thesis using e by simp
  next
    case fetch then show ?thesis using e by simp
  next
    case (finished e' j st p)
    then have "c' \<noteq> c" using e by auto
    then show ?thesis using e unfolding finished(6) by simp
  qed
qed

lemma terminal_entry_run:
  "invariant s \<Longrightarrow> registry s c = Some e \<Longrightarrow> state e \<noteq> Pending \<Longrightarrow>
   registry (run mode parser evs s) c = Some e"
proof (induction evs arbitrary: s)
  case Nil then show ?case by (simp add: run_Nil)
next
  case (Cons ev evs)
  show ?case unfolding run_Cons
    by (rule Cons.IH) (simp_all add: invariant_step terminal_entry_step Cons.prems)
qed

text \<open>
  C5: once a coordinate has a terminal state (Ok, ParsingFailed, Cancelled or
  UnknownError), it has the same state after every further list of events.
\<close>

theorem sticky:
  "state_of (registry (run mode parser evs initial)) c = Some st \<Longrightarrow> st \<noteq> Pending \<Longrightarrow>
   state_of (registry (run mode parser (evs @ evs') initial)) c = Some st"
proof -
  assume a: "state_of (registry (run mode parser evs initial)) c = Some st" "st \<noteq> Pending"
  then obtain e where e: "registry (run mode parser evs initial) c = Some e" "state e = st"
    by (auto simp: state_of_def)
  have "registry (run mode parser evs' (run mode parser evs initial)) c = Some e"
    using e a(2) by (intro terminal_entry_run[OF invariant_reachable e(1)]) simp
  then show ?thesis using e by (simp add: run_append state_of_def)
qed

theorem sticky_witness:
  "state_of (registry (run (WebEnabled example_template) example_parser
       [Request [tile_2_1_1] (Some 1) True, DiskRead tile_2_1_1 (Some [])] initial)) tile_2_1_1
     = Some ParsingFailed
   \<and> ParsingFailed \<noteq> Pending
   \<and> state_of (registry (run (WebEnabled example_template) example_parser
       ([Request [tile_2_1_1] (Some 1) True, DiskRead tile_2_1_1 (Some [])]
        @ [Request [tile_2_1_1] (Some 2) True, DiskRead tile_2_1_1 (Some [7]),
           FetchReply tile_2_1_1 (Some [7])]) initial)) tile_2_1_1
     = Some ParsingFailed"
proof -
  have h: "state_of (registry (run (WebEnabled example_template) example_parser
       [Request [tile_2_1_1] (Some 1) True, DiskRead tile_2_1_1 (Some [])] initial)) tile_2_1_1
     = Some ParsingFailed"
    by code_simp
  have n: "ParsingFailed \<noteq> Pending" by simp
  from sticky [OF h n] h n show ?thesis by blast
qed

subsection \<open>The callback of a load job\<close>

lemma at_most_one_invocation: "length (invoked_for c (run mode parser evs initial)) \<le> 1"
  using invariant_reachable[of mode parser evs] by (simp add: invariant_def)











text \<open>
  C6, at an input on which the program does not do what the claim says: the listeners 2
  and 3 register for the coordinate while its entry is Pending and the fetch is under
  way; the fetch succeeds and the entry becomes Ok. Only the listener 1 of the request
  that created the entry is invoked; the listener 2 has not been invoked, although it
  registered while the entry was Pending and the entry became Ok.
\<close>

theorem pending_listener_not_invoked:
  "state_of (registry (run (WebEnabled example_template) example_parser
        [Request [tile_2_1_1] (Some 1) True, DiskRead tile_2_1_1 None] initial)) tile_2_1_1
     = Some Pending
   \<and> state_of (registry (run (WebEnabled example_template) example_parser
        [Request [tile_2_1_1] (Some 1) True, DiskRead tile_2_1_1 None,
         Request [tile_2_1_1] (Some 2) True] initial)) tile_2_1_1
     = Some Pending
   \<and> state_of (registry (run (WebEnabled example_template) example_parser
        [Request [tile_2_1_1] (Some 1) True, DiskRead tile_2_1_1 None,
         Request [tile_2_1_1] (Some 2) True, Request [tile_2_1_1] (Some 3) True,
         FetchReply tile_2_1_1 (Some [7, 7])] initial)) tile_2_1_1
     = Some Ok
   \<and> invocations (run (WebEnabled example_template) example_parser
        [Request [tile_2_1_1] (Some 1) True, DiskRead tile_2_1_1 None,
         Request [tile_2_1_1] (Some 2) True, Request [tile_2_1_1] (Some 3) True,
         FetchReply tile_2_1_1 (Some [7, 7])] initial)
     = [(1, tile_2_1_1)]
   \<and> count_list (invocations (run (WebEnabled example_template) example_parser
        [Request [tile_2_1_1] (Some 1) True, DiskRead tile_2_1_1 None,
         Request [tile_2_1_1] (Some 2) True, Request [tile_2_1_1] (Some 3) True,
         FetchReply tile_2_1_1 (Some [7, 7])] initial)) (2, tile_2_1_1)
     = 0"
  by code_simp

end
